theory Spec2Isabelle
  imports Complex_Main
begin

section \<open>The headset battery server: data model\<close>

text \<open>
  The development embeds \<^verbatim>\<open>src/headset_interface.py\<close>. The class
  \<^verbatim>\<open>HyperXCloudFlightS\<close> becomes a record of its attributes, its methods become
  functions that take the record and return the updated one. Calls into the HID
  library, the clock and the timer are effects: their outcomes are parameters of the
  functions, and each call is appended to a log kept beside the attributes.
  Console output (\<^verbatim>\<open>print\<close>) is not modelled. The clock's floating-point
  seconds are idealised as real numbers.
\<close>

subsection \<open>Exceptions\<close>

text \<open>
  The exception classes the code distinguishes: \<^verbatim>\<open>except OSError\<close> catches the
  first, \<^verbatim>\<open>except Exception\<close> catches all of them. Indexing a list out of
  range raises \<^verbatim>\<open>IndexError\<close>, calling a method on \<^verbatim>\<open>None\<close> raises
  \<^verbatim>\<open>AttributeError\<close>; any other exception class is named by a string.
\<close>

datatype exn = OSError | IndexError | AttributeError | OtherException string

subsection \<open>Constants\<close>

definition VENDOR_ID :: int where "VENDOR_ID = 2385"
definition PRODUCT_ID :: int where "PRODUCT_ID = 5866"
definition USAGE_PAGE :: int where "USAGE_PAGE = 65299"

datatype CommandMeaning = position_info | position_battery | type_battery_status

fun enum_value :: "CommandMeaning \<Rightarrow> int" where
  "enum_value position_info = 3"
| "enum_value position_battery = 7"
| "enum_value type_battery_status = 2"

subsection \<open>Devices, handles, effects\<close>

text \<open>One entry of \<^verbatim>\<open>hid.enumerate\<close>, with the three keys the code reads.\<close>

record device_info =
  usage_page :: int
  usage :: int
  path :: string

text \<open>
  Every \<^verbatim>\<open>hid.device()\<close> is a new object; a handle is the number of the
  allocation that made it.
\<close>

type_synonym handle = nat

datatype io_call =
    Enumerate int int
  | Open_path handle string
  | Write handle "int list"
  | Read handle nat
  | Timer_start real

text \<open>A logged call with its outcome: \<open>None\<close> when it returned, the exception otherwise.\<close>

type_synonym io_entry = "io_call \<times> exn option"

datatype event = Battery_status_event int | Error_event exn

subsection \<open>The object\<close>

text \<open>
  The attributes of \<^verbatim>\<open>HyperXCloudFlightS\<close>, then \<^verbatim>\<open>app.battery_status\<close> (the
  attribute of the Flask application, \<open>None\<close> also while it does not exist yet), then
  what the object inherits from the event emitter that matters here: whether a
  listener for the event \<^verbatim>\<open>error\<close> is attached (the constructor attaches none,
  and no code of the repository does later). Then the effects: the events passed to
  \<^verbatim>\<open>emit\<close>, the calls made, the allocation counter.
  \<^verbatim>\<open>interval\<close> holds the delay of the timer armed last.
\<close>

record state =
  debug :: bool
  update_delay :: real
  invalidate_after :: real
  devices :: "device_info list"
  bootstrap_device :: "handle option"
  interval :: "real option"
  battery_status :: "int option"
  last_battery_update_at :: "real option"
  device_ready :: bool
  app_battery_status :: "int option"
  error_listener :: bool
  events :: "event list"
  io_log :: "io_entry list"
  next_handle :: nat

definition emit :: "event \<Rightarrow> state \<Rightarrow> state" where
  "emit e s = s\<lparr>events := events s @ [e]\<rparr>"

text \<open>
  \<^verbatim>\<open>self.emit('error', e)\<close>. The emitter is a library outside the repository; as
  its documentation has it, an \<^verbatim>\<open>error\<close> event for which no listener is attached
  is not dropped: \<^verbatim>\<open>emit\<close> raises the exception it was given. An attached listener
  is taken to return.
\<close>

definition emit_error :: "exn \<Rightarrow> state \<Rightarrow> exn option \<times> state" where
  "emit_error e s = (if error_listener s then None else Some e, emit (Error_event e) s)"

definition log_call :: "io_call \<Rightarrow> exn option \<Rightarrow> state \<Rightarrow> state" where
  "log_call c r s = s\<lparr>io_log := io_log s @ [(c, r)]\<rparr>"

section \<open>The status endpoint\<close>

datatype json_status = Unknown | Percentage int

text \<open>The route \<^verbatim>\<open>/battery_status\<close>: the value of \<^verbatim>\<open>battery_status\<close> in the reply.\<close>

definition battery_status_route :: "state \<Rightarrow> json_status" where
  "battery_status_route s =
     (case app_battery_status s of None \<Rightarrow> Unknown | Some p \<Rightarrow> Percentage p)"

section \<open>Decoding a frame\<close>

text \<open>Python's \<^verbatim>\<open>data[i]\<close>: a negative index counts from the end.\<close>

definition py_index :: "'a list \<Rightarrow> int \<Rightarrow> exn + 'a" where
  "py_index xs i =
     (let n = int (length xs); j = (if i < 0 then i + n else i)
      in if 0 \<le> j \<and> j < n then Inr (xs ! nat j) else Inl IndexError)"

text \<open>
  \<^verbatim>\<open>process_data\<close>. The frame is the list of integers that \<^verbatim>\<open>read\<close> returned;
  \<open>now\<close> is what \<^verbatim>\<open>time.time()\<close> returns in this call. Both index operations
  are evaluated before any attribute is assigned, so a raise leaves the object as it was.
\<close>

definition process_data :: "state \<Rightarrow> real \<Rightarrow> int list \<Rightarrow> exn + state" where
  "process_data s now data =
     (case py_index data (enum_value position_info) of
        Inl e \<Rightarrow> Inl e
      | Inr t \<Rightarrow>
          if t = enum_value type_battery_status then
            (case py_index data (enum_value position_battery) of
               Inl e \<Rightarrow> Inl e
             | Inr b \<Rightarrow>
                 let previous_battery_status = battery_status s;
                     s1 = s\<lparr>battery_status := Some b\<rparr>
                 in if previous_battery_status = battery_status s1
                    then Inr (s1\<lparr>last_battery_update_at := Some now\<rparr>)
                    else Inr ((emit (Battery_status_event b) s1)
                               \<lparr>app_battery_status := Some b,
                                last_battery_update_at := Some now\<rparr>))
          else Inr s)"

section \<open>The scheduler tick\<close>

text \<open>
  What the world answers during one call of \<^verbatim>\<open>bootstrap\<close>: the clock, the
  result of \<^verbatim>\<open>hid.enumerate\<close>, the outcome of \<^verbatim>\<open>open_path\<close> for each
  path, the outcome of \<^verbatim>\<open>write\<close>. An outcome is \<open>None\<close> for a normal return
  and the exception raised otherwise.
\<close>

record tick_env =
  clock :: real
  enumerate_result :: "exn + device_info list"
  open_path_result :: "string \<Rightarrow> exn option"
  write_result :: "exn option"

definition wake_buffer :: "int list" where
  "wake_buffer = 0x21 # replicate 19 0"

text \<open>The condition of the first \<^verbatim>\<open>if\<close> of \<^verbatim>\<open>bootstrap\<close>.\<close>

definition stale :: "state \<Rightarrow> real \<Rightarrow> bool" where
  "stale s now =
     (case last_battery_update_at s of
        None \<Rightarrow> False
      | Some t \<Rightarrow> now - t > invalidate_after s)"

definition invalidate :: "state \<Rightarrow> state" where
  "invalidate s = s\<lparr>app_battery_status := None, device_ready := False, bootstrap_device := None\<rparr>"

text \<open>
  The \<^verbatim>\<open>for\<close> loop over the candidates: a candidate of the telemetry interface
  gets a new device object, which is opened; \<^verbatim>\<open>OSError\<close> resets the attribute
  and goes on with the next candidate, success leaves the loop, any other exception
  leaves the method with the unopened object still in the attribute.
\<close>

fun open_first :: "(string \<Rightarrow> exn option) \<Rightarrow> device_info list \<Rightarrow> state \<Rightarrow> exn option \<times> state" where
  "open_first opn [] s = (None, s)"
| "open_first opn (d # ds) s =
     (if usage_page d = USAGE_PAGE \<and> usage d = 1 then
        (let h = next_handle s;
             s1 = log_call (Open_path h (path d)) (opn (path d))
                    (s\<lparr>bootstrap_device := Some h, next_handle := Suc h\<rparr>)
         in case opn (path d) of
              None \<Rightarrow> (None, s1)
            | Some e \<Rightarrow>
                if e = OSError then open_first opn ds (s1\<lparr>bootstrap_device := None\<rparr>)
                else (Some e, s1))
      else open_first opn ds s)"

text \<open>The block under \<^verbatim>\<open>if self.bootstrap_device is None\<close>.\<close>

definition find_device :: "tick_env \<Rightarrow> state \<Rightarrow> exn option \<times> state" where
  "find_device env s =
     (if bootstrap_device s = None then
        (if devices s = [] then
           (case enumerate_result env of
              Inl e \<Rightarrow> (Some e, log_call (Enumerate VENDOR_ID PRODUCT_ID) (Some e) s)
            | Inr ds \<Rightarrow>
                open_first (open_path_result env) ds
                  ((log_call (Enumerate VENDOR_ID PRODUCT_ID) None s)\<lparr>devices := ds\<rparr>))
         else open_first (open_path_result env) (devices s) s)
      else (None, s))"

text \<open>
  The inner \<^verbatim>\<open>try\<close>: the wake write and its two handlers. What
  \<^verbatim>\<open>emit\<close> raises inside the second handler leaves the method.
\<close>

definition wake :: "tick_env \<Rightarrow> handle \<Rightarrow> state \<Rightarrow> exn option \<times> state" where
  "wake env h s =
     (let s1 = log_call (Write h wake_buffer) (write_result env) s
      in case write_result env of
           None \<Rightarrow> (None, s1\<lparr>device_ready := True\<rparr>)
         | Some e \<Rightarrow>
             if e = OSError then (None, s1)
             else emit_error e s1)"

text \<open>The body of the outer \<^verbatim>\<open>try\<close>, with the exception that leaves it, if any.\<close>

definition bootstrap_try :: "tick_env \<Rightarrow> state \<Rightarrow> exn option \<times> state" where
  "bootstrap_try env s =
     (let s1 = (if stale s (clock env) then invalidate s else s)
      in case find_device env s1 of
           (Some e, s2) \<Rightarrow> (Some e, s2)
         | (None, s2) \<Rightarrow>
             (case bootstrap_device s2 of
                None \<Rightarrow> (None, s2)
              | Some h \<Rightarrow>
                  if device_ready s2 then (None, s2) else wake env h s2))"

text \<open>The \<^verbatim>\<open>finally\<close> clause: a new timer with the delay \<^verbatim>\<open>update_delay\<close>, started.\<close>

definition rearm :: "state \<Rightarrow> state" where
  "rearm s = (log_call (Timer_start (update_delay s)) None s)\<lparr>interval := Some (update_delay s)\<rparr>"

definition bootstrap :: "tick_env \<Rightarrow> state \<Rightarrow> exn option \<times> state" where
  "bootstrap env s = (case bootstrap_try env s of (r, s') \<Rightarrow> (r, rearm s'))"

section \<open>The constructor\<close>

definition default_update_delay :: real where "default_update_delay = 300"
definition default_invalidate_after :: real where "default_invalidate_after = 1800"

definition new_object :: "bool \<Rightarrow> real \<Rightarrow> real \<Rightarrow> state" where
  "new_object dbg ud ia =
     \<lparr>debug = dbg, update_delay = ud, invalidate_after = ia, devices = [],
      bootstrap_device = None, interval = None, battery_status = None,
      last_battery_update_at = None, device_ready = False,
      app_battery_status = None, error_listener = False, events = [], io_log = [],
      next_handle = 0\<rparr>"

text \<open>
  \<^verbatim>\<open>__init__\<close>: the first enumeration, the attributes, the first call of
  \<^verbatim>\<open>bootstrap\<close>. \<open>enum\<close> is the answer to the constructor's enumeration.
\<close>

definition init :: "bool \<Rightarrow> real \<Rightarrow> real \<Rightarrow> exn + device_info list \<Rightarrow> tick_env \<Rightarrow> exn option \<times> state" where
  "init dbg ud ia enum env =
     (case enum of
        Inl e \<Rightarrow> (Some e, log_call (Enumerate VENDOR_ID PRODUCT_ID) (Some e) (new_object dbg ud ia))
      | Inr ds \<Rightarrow>
          bootstrap env
            ((log_call (Enumerate VENDOR_ID PRODUCT_ID) None (new_object dbg ud ia))\<lparr>devices := ds\<rparr>))"

section \<open>The read loop\<close>

text \<open>
  One pass through the body of \<^verbatim>\<open>while True\<close> ends in one of three ways: the
  loop goes round again, the thread is blocked in \<^verbatim>\<open>device_ready.wait()\<close>, or an
  exception leaves \<^verbatim>\<open>run\<close>.
\<close>

datatype loop_result = Continue state | Blocked state | Raised exn state

fun loop_state :: "loop_result \<Rightarrow> state" where
  "loop_state (Continue s) = s"
| "loop_state (Blocked s) = s"
| "loop_state (Raised e s) = s"

text \<open>
  From \<^verbatim>\<open>data = self.bootstrap_device.read(20)\<close> to the end of the body. \<open>rr\<close>
  is the outcome of the read, \<open>now\<close> the clock's reading inside
  \<^verbatim>\<open>process_data\<close>.
\<close>

definition run_read :: "exn + int list \<Rightarrow> real \<Rightarrow> state \<Rightarrow> loop_result" where
  "run_read rr now s =
     (case bootstrap_device s of
        None \<Rightarrow> Raised AttributeError s
      | Some h \<Rightarrow>
          (case rr of
             Inl e \<Rightarrow>
               (let s1 = log_call (Read h 20) (Some e) s
                in if e = OSError
                   then Continue (s1\<lparr>bootstrap_device := None, device_ready := False\<rparr>)
                   else Raised e s1)
           | Inr data \<Rightarrow>
               (let s1 = log_call (Read h 20) None s
                in if data \<noteq> [] then
                     (case process_data s1 now data of
                        Inl e \<Rightarrow> Raised e s1
                      | Inr s2 \<Rightarrow> Continue s2)
                   else Continue s1)))"

text \<open>
  The handler of \<^verbatim>\<open>OSError\<close> makes two assignments, one after the other: the
  state after the first (the read has failed, the attribute is reset) and the second
  (the flag is cleared). Together they are the \<open>Continue\<close> branch above.
\<close>

definition read_failed :: "handle \<Rightarrow> state \<Rightarrow> state" where
  "read_failed h s = (log_call (Read h 20) (Some OSError) s)\<lparr>bootstrap_device := None\<rparr>"

definition ready_clear :: "state \<Rightarrow> state" where
  "ready_clear s = s\<lparr>device_ready := False\<rparr>"

text \<open>\<^verbatim>\<open>self.device_ready.wait()\<close> followed by the read.\<close>

definition wait_then_read :: "exn + int list \<Rightarrow> real \<Rightarrow> state \<Rightarrow> loop_result" where
  "wait_then_read rr now s = (if device_ready s then run_read rr now s else Blocked s)"

text \<open>The whole body of the loop, from its first \<^verbatim>\<open>if\<close>.\<close>

definition run_iteration :: "tick_env \<Rightarrow> exn + int list \<Rightarrow> real \<Rightarrow> state \<Rightarrow> loop_result" where
  "run_iteration env rr now s =
     (if bootstrap_device s = None then
        (case bootstrap env s of
           (Some e, s1) \<Rightarrow> Raised e s1
         | (None, s1) \<Rightarrow> wait_then_read rr now s1)
      else run_read rr now s)"

section \<open>Executions\<close>

text \<open>
  The operations that change the object after its construction: a tick of the timer,
  a pass through the loop body from its top, and the rest of a pass once a blocked
  \<^verbatim>\<open>wait\<close> is tried again (the \<^verbatim>\<open>wait\<close> before the loop is this operation too).
  A list of operations is an execution without overlap: each operation runs to its end
  before the next one starts. The program itself has no lock: the ticks run in timer
  threads beside the loop, so a tick can also run inside a pass, for instance between
  the two assignments of the handler, at a state \<open>read_failed h s\<close>. Such
  states are not reached by \<open>steps\<close>; what a tick does there is stated separately.
\<close>

datatype operation =
    Tick tick_env
  | Loop_pass tick_env "exn + int list" real
  | Loop_resume "exn + int list" real

fun step :: "operation \<Rightarrow> state \<Rightarrow> state" where
  "step (Tick env) s = snd (bootstrap env s)"
| "step (Loop_pass env rr now) s = loop_state (run_iteration env rr now s)"
| "step (Loop_resume rr now) s = loop_state (wait_then_read rr now s)"

fun steps :: "operation list \<Rightarrow> state \<Rightarrow> state" where
  "steps [] s = s"
| "steps (x # xs) s = steps xs (step x s)"

section \<open>Observations on the log\<close>

text \<open>Whether the log holds a wake write that returned, made on the given handle.\<close>

fun woken :: "io_entry list \<Rightarrow> handle option \<Rightarrow> bool" where
  "woken l None = False"
| "woken l (Some h) = ((Write h wake_buffer, None) \<in> set l)"

fun below :: "nat \<Rightarrow> handle option \<Rightarrow> bool" where
  "below n None = True"
| "below n (Some h) = (h < n)"

fun is_enumerate :: "io_entry \<Rightarrow> bool" where
  "is_enumerate (Enumerate v p, r) = True"
| "is_enumerate (c, r) = False"

fun is_read :: "io_entry \<Rightarrow> bool" where
  "is_read (Read h n, r) = True"
| "is_read (c, r) = False"

fun is_write :: "io_entry \<Rightarrow> bool" where
  "is_write (Write h b, r) = True"
| "is_write (c, r) = False"

fun is_open :: "io_entry \<Rightarrow> bool" where
  "is_open (Open_path h p, r) = True"
| "is_open (c, r) = False"

definition enumerations :: "state \<Rightarrow> nat" where
  "enumerations s = length (filter is_enumerate (io_log s))"

definition reads :: "state \<Rightarrow> nat" where
  "reads s = length (filter is_read (io_log s))"

definition writes :: "state \<Rightarrow> nat" where
  "writes s = length (filter is_write (io_log s))"

definition opens :: "state \<Rightarrow> nat" where
  "opens s = length (filter is_open (io_log s))"


text \<open>The handle a logged call was made on.\<close>

fun entry_handle :: "io_entry \<Rightarrow> handle option" where
  "entry_handle (Open_path h p, r) = Some h"
| "entry_handle (Write h b, r) = Some h"
| "entry_handle (Read h n, r) = Some h"
| "entry_handle (c, r) = None"

text \<open>
  The readiness invariant: the flag is set exactly when the attribute holds a handle on
  which a wake write returned. Beside it, the bookkeeping that lets it be carried
  through a step: every handle in use was allocated.
\<close>

definition readiness_inv :: "state \<Rightarrow> bool" where
  "readiness_inv s = (device_ready s = woken (io_log s) (bootstrap_device s))"

definition allocated :: "state \<Rightarrow> bool" where
  "allocated s =
     ((\<forall>x \<in> set (io_log s). below (next_handle s) (entry_handle x))
      \<and> below (next_handle s) (bootstrap_device s))"

definition consistent :: "state \<Rightarrow> bool" where
  "consistent s = (readiness_inv s \<and> allocated s)"

section \<open>Sample inputs\<close>

text \<open>
  Concrete inputs for the instances below: the telemetry interface of the headset and
  another interface of the same product, a frame of 20 bytes with a given type marker
  and value, and a world in which every call succeeds at a given time.
\<close>

definition headset :: device_info where
  "headset = \<lparr>usage_page = 65299, usage = 1, path = ''hid0''\<rparr>"

definition other_interface :: device_info where
  "other_interface = \<lparr>usage_page = 12, usage = 1, path = ''hid1''\<rparr>"

definition frame :: "int \<Rightarrow> int \<Rightarrow> int list" where
  "frame marker v = [0, 0, 0, marker, 0, 0, 0, v] @ replicate 12 0"

definition all_fine :: "real \<Rightarrow> tick_env" where
  "all_fine t =
     \<lparr>clock = t, enumerate_result = Inr [other_interface, headset],
      open_path_result = (\<lambda>p. None), write_result = None\<rparr>"

text \<open>Worlds in which the wake write, or every \<^verbatim>\<open>open_path\<close>, raises a given exception.\<close>

definition write_raises :: "exn \<Rightarrow> real \<Rightarrow> tick_env" where
  "write_raises e t = (all_fine t)\<lparr>write_result := Some e\<rparr>"





text \<open>A new object that has the headset among its candidates and no handle yet.\<close>

definition searching :: state where
  "searching = (new_object False default_update_delay default_invalidate_after)
                 \<lparr>devices := [other_interface, headset]\<rparr>"

text \<open>The object after a construction in which the headset is found and woken.\<close>

definition started :: state where
  "started = snd (init False default_update_delay default_invalidate_after
                    (Inr [other_interface, headset]) (all_fine 0))"

text \<open>The same object after a reading of 45 taken 10 seconds later.\<close>

definition served :: state where
  "served = steps [Loop_pass (all_fine 5) (Inr (frame 2 45)) 10] started"

text \<open>
  The object inside the handler of a failed read, after the first assignment and before
  the second.
\<close>

definition halfway :: state where
  "halfway = read_failed 0 served"

text \<open>The object after a read has failed and the handler has run to its end.\<close>

definition unplugged :: state where
  "unplugged = steps [Loop_pass (all_fine 20) (Inl OSError) 21] served"

section \<open>Frames\<close>

lemma py_index_in_range:
  "n < length xs \<Longrightarrow> py_index xs (int n) = Inr (xs ! n)"
  by (simp add: py_index_def)

lemma py_index_out_of_range:
  "length xs \<le> n \<Longrightarrow> py_index xs (int n) = Inl IndexError"
  by (simp add: py_index_def)

lemma process_data_other_type:
  assumes "4 \<le> length f" and "f ! 3 \<noteq> 2"
  shows "process_data s now f = Inr s"
proof -
  have "py_index f 3 = Inr (f ! 3)"
    using py_index_in_range [of 3 f] assms(1) by simp
  then show ?thesis
    using assms(2) by (simp add: process_data_def)
qed

lemma process_data_same:
  assumes "8 \<le> length f" and "f ! 3 = 2" and "battery_status s = Some (f ! 7)"
  shows "process_data s now f = Inr (s\<lparr>last_battery_update_at := Some now\<rparr>)"
proof -
  have i3: "py_index f 3 = Inr (f ! 3)"
    using py_index_in_range [of 3 f] assms(1) by simp
  have i7: "py_index f 7 = Inr (f ! 7)"
    using py_index_in_range [of 7 f] assms(1) by simp
  have "s\<lparr>battery_status := Some (f ! 7)\<rparr> = s"
    using assms(3) by (cases s) simp
  then show ?thesis
    using assms(2,3) i3 i7 by (simp add: process_data_def)
qed

lemma process_data_differs:
  assumes "8 \<le> length f" and "f ! 3 = 2" and "battery_status s \<noteq> Some (f ! 7)"
  shows "process_data s now f =
           Inr (s\<lparr>battery_status := Some (f ! 7),
                  events := events s @ [Battery_status_event (f ! 7)],
                  app_battery_status := Some (f ! 7),
                  last_battery_update_at := Some now\<rparr>)"
proof -
  have i3: "py_index f 3 = Inr (f ! 3)"
    using py_index_in_range [of 3 f] assms(1) by simp
  have i7: "py_index f 7 = Inr (f ! 7)"
    using py_index_in_range [of 7 f] assms(1) by simp
  show ?thesis
    using assms(2,3) i3 i7 by (simp add: process_data_def emit_def)
qed

text \<open>
  C1. A received frame of 20 bytes is always processed without a raise. When byte 3 is
  the battery marker 2, the object's battery status becomes byte 7 and the update
  time becomes the clock's reading; with any other byte 3 the object is unchanged: no
  update, no notification. When the clock's reading is not already the stored update
  time, the object changes if and only if byte 3 is 2.
\<close>

theorem process_data_battery_iff_marker:
  assumes "length f = 20"
  shows "\<exists>s'. process_data s now f = Inr s'
           \<and> (f ! 3 = 2 \<longrightarrow> battery_status s' = Some (f ! 7)
                            \<and> last_battery_update_at s' = Some now)
           \<and> (f ! 3 \<noteq> 2 \<longrightarrow> s' = s)
           \<and> (last_battery_update_at s \<noteq> Some now \<longrightarrow> (s' \<noteq> s) = (f ! 3 = 2))"
proof (cases "f ! 3 = 2")
  case False
  then have "process_data s now f = Inr s"
    using assms process_data_other_type [of f s now] by simp
  with False show ?thesis by simp
next
  case marker: True
  show ?thesis
  proof (cases "battery_status s = Some (f ! 7)")
    case True
    then have "process_data s now f = Inr (s\<lparr>last_battery_update_at := Some now\<rparr>)"
      using assms marker process_data_same [of f s now] by simp
    moreover have "last_battery_update_at s \<noteq> Some now
        \<Longrightarrow> s\<lparr>last_battery_update_at := Some now\<rparr> \<noteq> s"
      by (cases s) auto
    ultimately show ?thesis using marker True by auto
  next
    case False
    let ?s' = "s\<lparr>battery_status := Some (f ! 7),
                  events := events s @ [Battery_status_event (f ! 7)],
                  app_battery_status := Some (f ! 7),
                  last_battery_update_at := Some now\<rparr>"
    have "process_data s now f = Inr ?s'"
      using assms marker False process_data_differs [of f s now] by simp
    moreover have "?s' \<noteq> s"
      using False by (cases s) auto
    ultimately show ?thesis using marker by auto
  qed
qed

theorem process_data_battery_iff_marker_witness:
  "length ([0, 0, 0, 2, 0, 0, 0, 45] @ replicate 12 (0::int)) = 20
   \<and> (\<exists>s'. process_data (new_object False 300 1800) 1 ([0, 0, 0, 2, 0, 0, 0, 45] @ replicate 12 0) = Inr s'
         \<and> battery_status s' = Some 45 \<and> last_battery_update_at s' = Some 1
         \<and> s' \<noteq> new_object False 300 1800)"
  using process_data_battery_iff_marker
          [of "[0, 0, 0, 2, 0, 0, 0, 45] @ replicate 12 0" "new_object False 300 1800" 1]
  by (simp add: new_object_def)

text \<open>
  C2. For a battery frame (at least 8 bytes, byte 3 equal to 2): when byte 7 equals the
  cached percentage, only the update time changes and nothing is emitted; when it
  differs from the cached value (also when nothing is cached), the cached value is
  replaced, the update time is refreshed, and exactly one notification with the new
  percentage is appended to the events.
\<close>

theorem update_same_or_different:
  assumes "8 \<le> length f" and "f ! 3 = 2"
  shows "(battery_status s = Some (f ! 7) \<longrightarrow>
            process_data s now f = Inr (s\<lparr>last_battery_update_at := Some now\<rparr>))
       \<and> (battery_status s \<noteq> Some (f ! 7) \<longrightarrow>
            process_data s now f =
              Inr (s\<lparr>battery_status := Some (f ! 7),
                     events := events s @ [Battery_status_event (f ! 7)],
                     app_battery_status := Some (f ! 7),
                     last_battery_update_at := Some now\<rparr>))"
  using assms process_data_same [of f s now] process_data_differs [of f s now] by blast

theorem update_same_or_different_witness:
  "8 \<le> length ([0, 0, 0, 2, 0, 0, 0, 45] @ replicate 12 (0::int))
   \<and> ([0, 0, 0, 2, 0, 0, 0, 45] @ replicate 12 (0::int)) ! 3 = 2
   \<and> process_data ((new_object False 300 1800)\<lparr>battery_status := Some 45\<rparr>) 7
        ([0, 0, 0, 2, 0, 0, 0, 45] @ replicate 12 0)
      = Inr ((new_object False 300 1800)\<lparr>battery_status := Some 45, last_battery_update_at := Some 7\<rparr>)
   \<and> process_data ((new_object False 300 1800)\<lparr>battery_status := Some 50\<rparr>) 7
        ([0, 0, 0, 2, 0, 0, 0, 45] @ replicate 12 0)
      = Inr ((new_object False 300 1800)
               \<lparr>battery_status := Some 45, events := [Battery_status_event 45],
                app_battery_status := Some 45, last_battery_update_at := Some 7\<rparr>)"
  using update_same_or_different
          [of "[0, 0, 0, 2, 0, 0, 0, 45] @ replicate 12 0"
              "(new_object False 300 1800)\<lparr>battery_status := Some 45\<rparr>" 7]
        update_same_or_different
          [of "[0, 0, 0, 2, 0, 0, 0, 45] @ replicate 12 0"
              "(new_object False 300 1800)\<lparr>battery_status := Some 50\<rparr>" 7]
  by (simp add: new_object_def)

subsection \<open>Frames that are too short\<close>

lemma process_data_short:
  assumes "length f < 4"
  shows "process_data s now f = Inl IndexError"
proof -
  have "py_index f 3 = Inl IndexError"
    using py_index_out_of_range [of f 3] assms by simp
  then show ?thesis by (simp add: process_data_def)
qed

lemma process_data_short_battery:
  assumes "4 \<le> length f" and "length f < 8" and "f ! 3 = 2"
  shows "process_data s now f = Inl IndexError"
proof -
  have "py_index f 3 = Inr (f ! 3)"
    using py_index_in_range [of 3 f] assms(1) by simp
  moreover have "py_index f 7 = Inl IndexError"
    using py_index_out_of_range [of f 7] assms(2) by simp
  ultimately show ?thesis using assms(3) by (simp add: process_data_def)
qed

text \<open>
  C5, as stated, fails: the frame \<open>[0, 0, 0, 2]\<close> is shorter than 8 bytes, and
  processing it raises \<^verbatim>\<open>IndexError\<close> at \<^verbatim>\<open>data[7]\<close>; in the read loop the
  exception is not caught and leaves \<^verbatim>\<open>run\<close>.
\<close>

theorem truncated_frame_raises:
  "length [0, 0, 0, 2 :: int] < 8
   \<and> process_data (new_object False 300 1800) 1 [0, 0, 0, 2] = Inl IndexError
   \<and> run_read (Inr [0, 0, 0, 2]) 1
        ((new_object False 300 1800)\<lparr>bootstrap_device := Some 0, device_ready := True\<rparr>)
      = Raised IndexError
          (log_call (Read 0 20) None
             ((new_object False 300 1800)\<lparr>bootstrap_device := Some 0, device_ready := True\<rparr>))"
  by (simp add: process_data_def py_index_def run_read_def new_object_def log_call_def)

text \<open>
  C5, amended. A frame of at least 4 bytes whose byte 3 is not the battery marker is
  processed without a raise and leaves the object exactly as it was. A frame of fewer
  than 4 bytes, and a frame of fewer than 8 bytes whose byte 3 is the battery marker,
  raise \<^verbatim>\<open>IndexError\<close> (before any attribute is assigned).
\<close>

theorem unexpected_marker_ignored:
  "(4 \<le> length f \<and> f ! 3 \<noteq> 2 \<longrightarrow> process_data s now f = Inr s)
   \<and> (length f < 4 \<or> (length f < 8 \<and> f ! 3 = 2) \<longrightarrow> process_data s now f = Inl IndexError)"
  using process_data_other_type [of f s now] process_data_short [of f s now]
        process_data_short_battery [of f s now]
  by (cases "length f < 4") auto

theorem unexpected_marker_ignored_witness:
  "4 \<le> length [0, 0, 0, 5, 9 :: int] \<and> [0, 0, 0, 5, 9 :: int] ! 3 \<noteq> 2
   \<and> process_data (new_object False 300 1800) 1 [0, 0, 0, 5, 9] = Inr (new_object False 300 1800)
   \<and> length [7 :: int] < 4
   \<and> process_data (new_object False 300 1800) 1 [7] = Inl IndexError"
  using unexpected_marker_ignored [of "[0, 0, 0, 5, 9]" "new_object False 300 1800" 1]
        unexpected_marker_ignored [of "[7]" "new_object False 300 1800" 1]
  by simp

section \<open>The readiness invariant\<close>

lemma below_mono: "below n x \<Longrightarrow> below (Suc n) x"
  by (cases x) simp_all

lemma woken_append_other:
  "e \<noteq> (Write h wake_buffer, None) \<Longrightarrow> woken (l @ [e]) (Some h) = woken l (Some h)"
  by auto

lemma consistent_new_object: "consistent (new_object dbg ud ia)"
  by (simp add: consistent_def readiness_inv_def allocated_def new_object_def)

lemma consistent_log_enumerate:
  "consistent s \<Longrightarrow> consistent (log_call (Enumerate v p) r s)"
  by (cases "bootstrap_device s")
     (simp_all add: consistent_def readiness_inv_def allocated_def log_call_def)

lemma consistent_log_timer:
  "consistent s \<Longrightarrow> consistent (log_call (Timer_start d) r s)"
  by (cases "bootstrap_device s")
     (simp_all add: consistent_def readiness_inv_def allocated_def log_call_def)

lemma consistent_devices_update:
  "consistent (s\<lparr>devices := ds\<rparr>) = consistent s"
  by (simp add: consistent_def readiness_inv_def allocated_def)

lemma consistent_interval_update:
  "consistent (s\<lparr>interval := d\<rparr>) = consistent s"
  by (simp add: consistent_def readiness_inv_def allocated_def)

lemma consistent_invalidate:
  "consistent s \<Longrightarrow> consistent (invalidate s)"
  by (simp add: consistent_def readiness_inv_def allocated_def invalidate_def)

lemma consistent_rearm: "consistent s \<Longrightarrow> consistent (rearm s)"
  by (simp add: rearm_def consistent_interval_update consistent_log_timer)

lemma fresh_not_woken:
  assumes "allocated s"
  shows "\<not> woken (io_log s) (Some (next_handle s))"
proof
  assume "woken (io_log s) (Some (next_handle s))"
  then have "(Write (next_handle s) wake_buffer, None) \<in> set (io_log s)" by simp
  then have "below (next_handle s) (entry_handle (Write (next_handle s) wake_buffer, None))"
    using assms unfolding allocated_def by blast
  then show False by simp
qed

lemma open_first_consistent:
  "consistent s \<Longrightarrow> \<not> device_ready s \<Longrightarrow> bootstrap_device s = None \<Longrightarrow>
   consistent (snd (open_first opn ds s)) \<and> \<not> device_ready (snd (open_first opn ds s))"
proof (induction ds arbitrary: s)
  case Nil
  then show ?case by simp
next
  case (Cons d ds)
  show ?case
  proof (cases "usage_page d = USAGE_PAGE \<and> usage d = 1")
    case False
    then show ?thesis using Cons by auto
  next
    case True
    let ?h = "next_handle s"
    let ?s1 = "log_call (Open_path ?h (path d)) (opn (path d))
                 (s\<lparr>bootstrap_device := Some ?h, next_handle := Suc ?h\<rparr>)"
    have alloc: "allocated s" using Cons.prems(1) by (simp add: consistent_def)
    have nw: "\<not> woken (io_log s) (Some ?h)" using alloc by (rule fresh_not_woken)
    have a1: "allocated ?s1"
      using alloc by (simp add: allocated_def log_call_def below_mono)
    have w1: "\<not> woken (io_log ?s1) (Some ?h)"
      using nw by (simp add: log_call_def)
    have r1: "\<not> device_ready ?s1"
      using Cons.prems(2) by (simp add: log_call_def)
    have c1: "consistent ?s1"
      using a1 w1 r1 by (simp add: consistent_def readiness_inv_def log_call_def)
    show ?thesis
    proof (cases "opn (path d)")
      case None
      then show ?thesis using True c1 r1 by (simp add: Let_def)
    next
      case (Some e)
      show ?thesis
      proof (cases "e = OSError")
        case False
        then show ?thesis using True Some c1 r1 by (simp add: Let_def)
      next
        case os: True
        let ?s2 = "?s1\<lparr>bootstrap_device := None\<rparr>"
        have "allocated ?s2"
          using a1 by (simp add: allocated_def log_call_def)
        then have c2: "consistent ?s2"
          using r1 by (simp add: consistent_def readiness_inv_def log_call_def)
        have r2: "\<not> device_ready ?s2" using r1 by simp
        have b2: "bootstrap_device ?s2 = None" by simp
        have "open_first opn (d # ds) s = open_first opn ds ?s2"
          using True Some os by (simp add: Let_def)
        then show ?thesis using Cons.IH [OF c2 r2 b2] by simp
      qed
    qed
  qed
qed

lemma find_device_consistent:
  assumes "consistent s"
  shows "consistent (snd (find_device env s))"
proof (cases "bootstrap_device s")
  case (Some h)
  then show ?thesis using assms by (simp add: find_device_def)
next
  case None
  then have nr: "\<not> device_ready s"
    using assms by (simp add: consistent_def readiness_inv_def)
  show ?thesis
  proof (cases "devices s = []")
    case False
    then show ?thesis
      using None open_first_consistent [OF assms nr None] by (simp add: find_device_def)
  next
    case True
    show ?thesis
    proof (cases "enumerate_result env")
      case (Inl e)
      then show ?thesis
        using None True assms by (simp add: find_device_def consistent_log_enumerate)
    next
      case (Inr ds)
      let ?s1 = "(log_call (Enumerate VENDOR_ID PRODUCT_ID) None s)\<lparr>devices := ds\<rparr>"
      have c: "consistent ?s1"
        using assms by (simp add: consistent_devices_update consistent_log_enumerate)
      have r: "\<not> device_ready ?s1" using nr by (simp add: log_call_def)
      have b: "bootstrap_device ?s1 = None" using None by (simp add: log_call_def)
      show ?thesis
        using None True Inr open_first_consistent [OF c r b]
        by (simp add: find_device_def)
    qed
  qed
qed

lemma wake_consistent:
  assumes "consistent s" and "\<not> device_ready s" and "bootstrap_device s = Some h"
  shows "consistent (snd (wake env h s))"
proof -
  have nw: "\<not> woken (io_log s) (Some h)"
    using assms by (simp add: consistent_def readiness_inv_def)
  have al: "allocated s" using assms(1) by (simp add: consistent_def)
  have lt: "h < next_handle s" using al assms(3) by (simp add: allocated_def)
  have al': "allocated (log_call (Write h wake_buffer) r s)" for r
    using al lt by (simp add: allocated_def log_call_def)
  show ?thesis
  proof (cases "write_result env")
    case None
    then show ?thesis
      using al' [of None] assms(3)
      by (simp add: wake_def consistent_def readiness_inv_def allocated_def log_call_def)
  next
    case (Some e)
    then show ?thesis
      using al' [of "Some e"] nw assms(2,3)
      by (cases "e = OSError")
         (simp_all add: wake_def consistent_def readiness_inv_def allocated_def
                        log_call_def emit_def emit_error_def Let_def)
  qed
qed

lemma bootstrap_try_consistent:
  assumes "consistent s"
  shows "consistent (snd (bootstrap_try env s))"
proof -
  let ?s1 = "if stale s (clock env) then invalidate s else s"
  have c1: "consistent ?s1" using assms by (simp add: consistent_invalidate)
  obtain r s2 where fd: "find_device env ?s1 = (r, s2)" by (cases "find_device env ?s1")
  have c2: "consistent s2" using find_device_consistent [OF c1, of env] fd by simp
  show ?thesis
  proof (cases r)
    case (Some e)
    then show ?thesis using fd c2 by (simp add: bootstrap_try_def)
  next
    case None
    show ?thesis
    proof (cases "bootstrap_device s2")
      case nb: None
      then show ?thesis using fd None c2 by (simp add: bootstrap_try_def)
    next
      case (Some h)
      show ?thesis
      proof (cases "device_ready s2")
        case True
        then show ?thesis using fd None Some c2 by (simp add: bootstrap_try_def)
      next
        case False
        then show ?thesis
          using fd None Some wake_consistent [OF c2 False Some, of env]
          by (simp add: bootstrap_try_def)
      qed
    qed
  qed
qed

lemma bootstrap_consistent:
  assumes "consistent s"
  shows "consistent (snd (bootstrap env s))"
proof -
  obtain r s' where b: "bootstrap_try env s = (r, s')" by (cases "bootstrap_try env s")
  then have "consistent s'" using bootstrap_try_consistent [OF assms, of env] by simp
  then show ?thesis using b by (simp add: bootstrap_def consistent_rearm)
qed

lemma process_data_consistent:
  assumes "process_data s now f = Inr s'" and "consistent s"
  shows "consistent s'"
proof -
  have "bootstrap_device s' = bootstrap_device s \<and> device_ready s' = device_ready s
        \<and> io_log s' = io_log s \<and> next_handle s' = next_handle s"
    using assms(1)
    by (auto simp: process_data_def emit_def Let_def split: sum.splits if_splits)
  then show ?thesis
    using assms(2) by (simp add: consistent_def readiness_inv_def allocated_def)
qed

lemma consistent_log_read:
  assumes "consistent s" and "bootstrap_device s = Some h"
  shows "consistent (log_call (Read h n) r s)"
proof -
  have "h < next_handle s" using assms by (simp add: consistent_def allocated_def)
  then show ?thesis
    using assms by (simp add: consistent_def readiness_inv_def allocated_def log_call_def)
qed

lemma run_read_consistent:
  assumes "consistent s"
  shows "consistent (loop_state (run_read rr now s))"
proof (cases "bootstrap_device s")
  case None
  then show ?thesis using assms by (simp add: run_read_def)
next
  case (Some h)
  show ?thesis
  proof (cases rr)
    case (Inl e)
    have c: "consistent (log_call (Read h 20) (Some e) s)"
      using assms Some by (rule consistent_log_read)
    then have "consistent ((log_call (Read h 20) (Some e) s)\<lparr>bootstrap_device := None, device_ready := False\<rparr>)"
      by (simp add: consistent_def readiness_inv_def allocated_def log_call_def)
    then show ?thesis using Some Inl c by (cases "e = OSError") (simp_all add: run_read_def Let_def)
  next
    case (Inr data)
    have c: "consistent (log_call (Read h 20) None s)"
      using assms Some by (rule consistent_log_read)
    show ?thesis
      using Some Inr c process_data_consistent [of "log_call (Read h 20) None s" now data]
      by (auto simp: run_read_def Let_def split: sum.splits)
  qed
qed

lemma wait_then_read_consistent:
  "consistent s \<Longrightarrow> consistent (loop_state (wait_then_read rr now s))"
  by (simp add: wait_then_read_def run_read_consistent)

lemma run_iteration_consistent:
  assumes "consistent s"
  shows "consistent (loop_state (run_iteration env rr now s))"
proof (cases "bootstrap_device s")
  case (Some h)
  then show ?thesis using assms by (simp add: run_iteration_def run_read_consistent)
next
  case None
  obtain r s1 where b: "bootstrap env s = (r, s1)" by (cases "bootstrap env s")
  have "consistent s1" using bootstrap_consistent [OF assms, of env] b by simp
  then show ?thesis
    using None b by (cases r) (simp_all add: run_iteration_def wait_then_read_consistent)
qed

lemma step_consistent: "consistent s \<Longrightarrow> consistent (step x s)"
  by (cases x) (simp_all add: bootstrap_consistent run_iteration_consistent wait_then_read_consistent)

lemma steps_consistent: "consistent s \<Longrightarrow> consistent (steps xs s)"
  by (induction xs arbitrary: s) (simp_all add: step_consistent)

lemma init_consistent: "consistent (snd (init dbg ud ia enum env))"
proof (cases enum)
  case (Inl e)
  then show ?thesis
    by (simp add: init_def consistent_log_enumerate consistent_new_object)
next
  case (Inr ds)
  have "consistent ((log_call (Enumerate VENDOR_ID PRODUCT_ID) None (new_object dbg ud ia))\<lparr>devices := ds\<rparr>)"
    by (simp add: consistent_devices_update consistent_log_enumerate consistent_new_object)
  then show ?thesis using Inr by (simp add: init_def bootstrap_consistent)
qed

section \<open>Executions from the constructor\<close>

lemma started_eq:
  "started =
     \<lparr>debug = False, update_delay = 300, invalidate_after = 1800,
      devices = [other_interface, headset],
      bootstrap_device = Some 0, interval = Some 300, battery_status = None,
      last_battery_update_at = None, device_ready = True,
      app_battery_status = None, error_listener = False, events = [],
      io_log = [(Enumerate 2385 5866, None), (Open_path 0 ''hid0'', None),
                (Write 0 wake_buffer, None), (Timer_start 300, None)],
      next_handle = 1\<rparr>"
  by (simp add: started_def init_def bootstrap_def bootstrap_try_def find_device_def wake_def
        rearm_def stale_def log_call_def new_object_def headset_def other_interface_def
        all_fine_def default_update_delay_def default_invalidate_after_def USAGE_PAGE_def
        VENDOR_ID_def PRODUCT_ID_def)

lemma served_eq:
  "served =
     \<lparr>debug = False, update_delay = 300, invalidate_after = 1800,
      devices = [other_interface, headset],
      bootstrap_device = Some 0, interval = Some 300, battery_status = Some 45,
      last_battery_update_at = Some 10, device_ready = True,
      app_battery_status = Some 45, error_listener = False,
      events = [Battery_status_event 45],
      io_log = [(Enumerate 2385 5866, None), (Open_path 0 ''hid0'', None),
                (Write 0 wake_buffer, None), (Timer_start 300, None), (Read 0 20, None)],
      next_handle = 1\<rparr>"
  by (simp add: served_def started_eq run_iteration_def run_read_def process_data_def
        py_index_def frame_def emit_def log_call_def)

lemma halfway_eq:
  "halfway =
     \<lparr>debug = False, update_delay = 300, invalidate_after = 1800,
      devices = [other_interface, headset],
      bootstrap_device = None, interval = Some 300, battery_status = Some 45,
      last_battery_update_at = Some 10, device_ready = True,
      app_battery_status = Some 45, error_listener = False,
      events = [Battery_status_event 45],
      io_log = [(Enumerate 2385 5866, None), (Open_path 0 ''hid0'', None),
                (Write 0 wake_buffer, None), (Timer_start 300, None), (Read 0 20, None),
                (Read 0 20, Some OSError)],
      next_handle = 1\<rparr>"
  by (simp add: halfway_def read_failed_def served_eq log_call_def)

lemma unplugged_eq:
  "unplugged =
     \<lparr>debug = False, update_delay = 300, invalidate_after = 1800,
      devices = [other_interface, headset],
      bootstrap_device = None, interval = Some 300, battery_status = Some 45,
      last_battery_update_at = Some 10, device_ready = False,
      app_battery_status = Some 45, error_listener = False,
      events = [Battery_status_event 45],
      io_log = [(Enumerate 2385 5866, None), (Open_path 0 ''hid0'', None),
                (Write 0 wake_buffer, None), (Timer_start 300, None), (Read 0 20, None),
                (Read 0 20, Some OSError)],
      next_handle = 1\<rparr>"
  by (simp add: unplugged_def served_eq run_iteration_def run_read_def log_call_def)

lemma run_read_in_two:
  "bootstrap_device s = Some h \<Longrightarrow>
   run_read (Inl OSError) now s = Continue (ready_clear (read_failed h s))"
  by (simp add: run_read_def read_failed_def ready_clear_def)

text \<open>
  C6, as stated, fails when a tick runs inside a loop pass. A read fails; the handler
  has reset the handle and not yet cleared the flag. A tick that runs there finds and
  opens the device, sees the flag set and returns without a wake write: it ends with
  the flag set on a handle that was never woken. A tick that runs there with a stale
  reading clears the flag, opens and wakes the device and sets the flag; the handler
  then clears it: the handle is woken and the flag is clear.
\<close>

theorem tick_inside_handler_breaks_readiness:
  "run_read (Inl OSError) 21 served = Continue (ready_clear halfway)
   \<and> device_ready (snd (bootstrap (all_fine 300) halfway))
   \<and> bootstrap_device (snd (bootstrap (all_fine 300) halfway)) = Some 1
   \<and> (Write 1 wake_buffer, None) \<notin> set (io_log (snd (bootstrap (all_fine 300) halfway)))
   \<and> \<not> device_ready (ready_clear (snd (bootstrap (all_fine 2000) halfway)))
   \<and> bootstrap_device (ready_clear (snd (bootstrap (all_fine 2000) halfway))) = Some 1
   \<and> (Write 1 wake_buffer, None)
        \<in> set (io_log (ready_clear (snd (bootstrap (all_fine 2000) halfway))))"
proof -
  have "run_read (Inl OSError) 21 served = Continue (ready_clear halfway)"
    using run_read_in_two [of served 0 21] by (simp add: halfway_def served_eq)
  moreover have "device_ready (snd (bootstrap (all_fine 300) halfway))
      \<and> bootstrap_device (snd (bootstrap (all_fine 300) halfway)) = Some 1
      \<and> (Write 1 wake_buffer, None) \<notin> set (io_log (snd (bootstrap (all_fine 300) halfway)))"
    by (simp add: halfway_eq bootstrap_def bootstrap_try_def find_device_def rearm_def
          stale_def log_call_def all_fine_def headset_def other_interface_def USAGE_PAGE_def)
  moreover have "\<not> device_ready (ready_clear (snd (bootstrap (all_fine 2000) halfway)))
      \<and> bootstrap_device (ready_clear (snd (bootstrap (all_fine 2000) halfway))) = Some 1
      \<and> (Write 1 wake_buffer, None)
           \<in> set (io_log (ready_clear (snd (bootstrap (all_fine 2000) halfway))))"
    by (simp add: halfway_eq ready_clear_def bootstrap_def bootstrap_try_def find_device_def
          wake_def rearm_def stale_def invalidate_def log_call_def all_fine_def headset_def
          other_interface_def USAGE_PAGE_def)
  ultimately show ?thesis by simp
qed

text \<open>
  C6, amended. In every execution without overlap (any construction, then any sequence
  of ticks and loop passes, each run to its end before the next starts) the readiness
  flag is set if and only if the attribute holds a handle and the log holds a wake
  write on that handle that returned; in particular, whenever the handle is none the
  flag is clear. The property is kept by every single operation that starts in a
  state that has it.
\<close>

theorem readiness_iff_woken_handle:
  "(device_ready (steps xs (snd (init dbg ud ia enum env)))
      = (\<exists>h. bootstrap_device (steps xs (snd (init dbg ud ia enum env))) = Some h
             \<and> (Write h wake_buffer, None)
                  \<in> set (io_log (steps xs (snd (init dbg ud ia enum env))))))
   \<and> (bootstrap_device (steps xs (snd (init dbg ud ia enum env))) = None
        \<longrightarrow> \<not> device_ready (steps xs (snd (init dbg ud ia enum env))))
   \<and> (consistent s \<longrightarrow> consistent (step x s))"
proof -
  let ?s = "steps xs (snd (init dbg ud ia enum env))"
  have "consistent ?s" by (rule steps_consistent) (rule init_consistent)
  then have "device_ready ?s = woken (io_log ?s) (bootstrap_device ?s)"
    by (simp add: consistent_def readiness_inv_def)
  then have "(device_ready ?s
               = (\<exists>h. bootstrap_device ?s = Some h \<and> (Write h wake_buffer, None) \<in> set (io_log ?s)))
             \<and> (bootstrap_device ?s = None \<longrightarrow> \<not> device_ready ?s)"
    by (cases "bootstrap_device ?s") simp_all
  then show ?thesis using step_consistent [of s x] by blast
qed

theorem readiness_iff_woken_handle_witness:
  "bootstrap_device (steps [Loop_pass (all_fine 5) (Inl OSError) 6] started) = None
   \<and> \<not> device_ready (steps [Loop_pass (all_fine 5) (Inl OSError) 6] started)
   \<and> device_ready (steps [] started)
   \<and> bootstrap_device (steps [] started) = Some 0
   \<and> (Write 0 wake_buffer, None) \<in> set (io_log (steps [] started))
   \<and> consistent started
   \<and> consistent (step (Tick (all_fine 300)) started)"
proof -
  have c: "consistent started"
    by (simp add: started_eq consistent_def readiness_inv_def allocated_def)
  show ?thesis
    using c
          readiness_iff_woken_handle
            [of "[Loop_pass (all_fine 5) (Inl OSError) 6]" False default_update_delay
                default_invalidate_after "Inr [other_interface, headset]" "all_fine 0"
                started "Tick (all_fine 300)"]
          readiness_iff_woken_handle
            [of "[]" False default_update_delay
                default_invalidate_after "Inr [other_interface, headset]" "all_fine 0"
                started "Tick (all_fine 300)"]
    by (simp add: started_eq started_def [symmetric] run_iteration_def run_read_def log_call_def)
qed

section \<open>What a tick leaves alone\<close>

lemma open_first_keeps:
  "devices (snd (open_first opn ds s)) = devices s
   \<and> enumerations (snd (open_first opn ds s)) = enumerations s
   \<and> update_delay (snd (open_first opn ds s)) = update_delay s
   \<and> events (snd (open_first opn ds s)) = events s
   \<and> reads (snd (open_first opn ds s)) = reads s"
  by (induction ds arbitrary: s)
     (auto simp: log_call_def enumerations_def reads_def Let_def split: option.splits)

lemma open_first_keeps_more:
  "writes (snd (open_first opn ds s)) = writes s
   \<and> device_ready (snd (open_first opn ds s)) = device_ready s
   \<and> battery_status (snd (open_first opn ds s)) = battery_status s
   \<and> app_battery_status (snd (open_first opn ds s)) = app_battery_status s
   \<and> last_battery_update_at (snd (open_first opn ds s)) = last_battery_update_at s
   \<and> error_listener (snd (open_first opn ds s)) = error_listener s"
  by (induction ds arbitrary: s)
     (auto simp: log_call_def writes_def Let_def split: option.splits)

lemma find_device_keeps:
  "update_delay (snd (find_device env s)) = update_delay s
   \<and> events (snd (find_device env s)) = events s
   \<and> reads (snd (find_device env s)) = reads s"
proof -
  have "reads ((log_call (Enumerate v p) r s)\<lparr>devices := ds\<rparr>) = reads s" for v p r ds
    by (simp add: log_call_def reads_def)
  moreover have "reads (log_call (Enumerate v p) r s) = reads s" for v p r
    by (simp add: log_call_def reads_def)
  ultimately show ?thesis
    by (simp add: find_device_def open_first_keeps split: sum.splits)
       (simp add: log_call_def)
qed

lemma find_device_keeps_more:
  "writes (snd (find_device env s)) = writes s
   \<and> device_ready (snd (find_device env s)) = device_ready s
   \<and> battery_status (snd (find_device env s)) = battery_status s
   \<and> app_battery_status (snd (find_device env s)) = app_battery_status s
   \<and> last_battery_update_at (snd (find_device env s)) = last_battery_update_at s
   \<and> error_listener (snd (find_device env s)) = error_listener s"
proof -
  have "writes ((log_call (Enumerate v p) r s)\<lparr>devices := ds\<rparr>) = writes s" for v p r ds
    by (simp add: log_call_def writes_def)
  moreover have "writes (log_call (Enumerate v p) r s) = writes s" for v p r
    by (simp add: log_call_def writes_def)
  ultimately show ?thesis
    by (simp add: find_device_def open_first_keeps_more split: sum.splits)
       (simp add: log_call_def)
qed

lemma find_device_cached:
  "devices s \<noteq> [] \<Longrightarrow>
   devices (snd (find_device env s)) = devices s
   \<and> enumerations (snd (find_device env s)) = enumerations s"
  by (simp add: find_device_def open_first_keeps)

lemma wake_keeps:
  "update_delay (snd (wake env h s)) = update_delay s
   \<and> devices (snd (wake env h s)) = devices s
   \<and> enumerations (snd (wake env h s)) = enumerations s
   \<and> reads (snd (wake env h s)) = reads s
   \<and> writes (snd (wake env h s)) = Suc (writes s)"
  by (simp add: wake_def log_call_def emit_def emit_error_def enumerations_def reads_def
                writes_def Let_def
           split: option.splits)




lemma bootstrap_try_cached:
  assumes "devices s \<noteq> []"
  shows "devices (snd (bootstrap_try env s)) = devices s
         \<and> enumerations (snd (bootstrap_try env s)) = enumerations s"
proof -
  let ?s1 = "if stale s (clock env) then invalidate s else s"
  have d1: "devices ?s1 = devices s" "enumerations ?s1 = enumerations s"
    by (simp_all add: invalidate_def enumerations_def)
  obtain r s2 where fd: "find_device env ?s1 = (r, s2)" by (cases "find_device env ?s1")
  have d2: "devices s2 = devices s \<and> enumerations s2 = enumerations s"
    using find_device_cached [of ?s1 env] fd d1 assms by simp
  show ?thesis
    using fd d2 wake_keeps [of env _ s2]
    by (simp add: bootstrap_try_def split: option.splits)
qed





lemma rearm_keeps:
  "devices (rearm s) = devices s \<and> enumerations (rearm s) = enumerations s
   \<and> update_delay (rearm s) = update_delay s \<and> events (rearm s) = events s
   \<and> interval (rearm s) = Some (update_delay s)
   \<and> reads (rearm s) = reads s \<and> writes (rearm s) = writes s
   \<and> io_log (rearm s) = io_log s @ [(Timer_start (update_delay s), None)]"
  by (simp add: rearm_def log_call_def enumerations_def reads_def writes_def)

lemma bootstrap_split:
  "bootstrap env s = (fst (bootstrap_try env s), rearm (snd (bootstrap_try env s)))"
  by (simp add: bootstrap_def split: prod.splits)

lemma bootstrap_cached:
  "devices s \<noteq> [] \<Longrightarrow>
   devices (snd (bootstrap env s)) = devices s
   \<and> enumerations (snd (bootstrap env s)) = enumerations s"
  by (simp add: bootstrap_split rearm_keeps bootstrap_try_cached)

lemma bootstrap_held_handle:
  assumes "bootstrap_device s = Some h" and "\<not> stale s (clock env)"
  shows "bootstrap_try env s = (if device_ready s then (None, s) else wake env h s)"
  using assms by (simp add: bootstrap_try_def find_device_def)

lemma bootstrap_try_reads:
  "reads (snd (bootstrap_try env s)) = reads s"
proof -
  let ?s1 = "if stale s (clock env) then invalidate s else s"
  have u1: "reads ?s1 = reads s" by (simp add: invalidate_def reads_def)
  obtain r s2 where fd: "find_device env ?s1 = (r, s2)" by (cases "find_device env ?s1")
  have u2: "reads s2 = reads s"
    using find_device_keeps [of env ?s1] fd u1 by simp
  show ?thesis
    using fd u2 wake_keeps [of env _ s2]
    by (simp add: bootstrap_try_def split: option.splits)
qed

lemma bootstrap_reads: "reads (snd (bootstrap env s)) = reads s"
  by (simp add: bootstrap_split rearm_keeps bootstrap_try_reads)

lemma process_data_cached:
  "process_data s now f = Inr s' \<Longrightarrow>
   devices s' = devices s \<and> enumerations s' = enumerations s"
  by (auto simp: process_data_def emit_def enumerations_def Let_def
           split: sum.splits if_splits)

lemma run_read_cached:
  "devices (loop_state (run_read rr now s)) = devices s
   \<and> enumerations (loop_state (run_read rr now s)) = enumerations s"
proof (cases "bootstrap_device s")
  case None
  then show ?thesis by (simp add: run_read_def)
next
  case (Some h)
  show ?thesis
  proof (cases rr)
    case (Inl e)
    then show ?thesis
      using Some by (simp add: run_read_def log_call_def enumerations_def Let_def)
  next
    case (Inr data)
    have l: "devices (log_call (Read h 20) None s) = devices s
             \<and> enumerations (log_call (Read h 20) None s) = enumerations s"
      by (simp add: log_call_def enumerations_def)
    show ?thesis
      using Some Inr l process_data_cached [of "log_call (Read h 20) None s" now data]
      by (auto simp: run_read_def Let_def split: sum.splits)
  qed
qed

lemma wait_then_read_cached:
  "devices (loop_state (wait_then_read rr now s)) = devices s
   \<and> enumerations (loop_state (wait_then_read rr now s)) = enumerations s"
  by (simp add: wait_then_read_def run_read_cached)

lemma run_iteration_cached:
  assumes "devices s \<noteq> []"
  shows "devices (loop_state (run_iteration env rr now s)) = devices s
         \<and> enumerations (loop_state (run_iteration env rr now s)) = enumerations s"
proof (cases "bootstrap_device s")
  case (Some h)
  then show ?thesis by (simp add: run_iteration_def run_read_cached)
next
  case None
  obtain r s1 where b: "bootstrap env s = (r, s1)" by (cases "bootstrap env s")
  have "devices s1 = devices s \<and> enumerations s1 = enumerations s"
    using bootstrap_cached [OF assms, of env] b by simp
  then show ?thesis
    using None b by (cases r) (simp_all add: run_iteration_def wait_then_read_cached)
qed

lemma step_cached:
  "devices s \<noteq> [] \<Longrightarrow>
   devices (step x s) = devices s \<and> enumerations (step x s) = enumerations s"
  by (cases x) (simp_all add: bootstrap_cached run_iteration_cached wait_then_read_cached)

lemma steps_cached:
  "devices s \<noteq> [] \<Longrightarrow>
   devices (steps xs s) = devices s \<and> enumerations (steps xs s) = enumerations s"
proof (induction xs arbitrary: s)
  case Nil
  then show ?case by simp
next
  case (Cons x xs)
  have "devices (step x s) \<noteq> []" using step_cached [OF Cons.prems, of x] Cons.prems by simp
  then show ?case using Cons.IH [of "step x s"] step_cached [OF Cons.prems, of x] by simp
qed

lemma init_cached:
  assumes "ds \<noteq> []"
  shows "devices (snd (init dbg ud ia (Inr ds) env)) = ds
         \<and> enumerations (snd (init dbg ud ia (Inr ds) env)) = 1"
proof -
  let ?s0 = "(log_call (Enumerate VENDOR_ID PRODUCT_ID) None (new_object dbg ud ia))\<lparr>devices := ds\<rparr>"
  have "devices ?s0 = ds" "enumerations ?s0 = 1"
    by (simp_all add: log_call_def new_object_def enumerations_def)
  then show ?thesis
    using assms bootstrap_cached [of ?s0 env] by (simp add: init_def)
qed

text \<open>
  C10. Once the cached candidate list is not empty, no operation changes it and none
  enumerates again, whatever happens to the handle; in particular, when the
  constructor's enumeration returns a non-empty list, that list stays and the
  enumeration of the constructor remains the only one in the log.
\<close>

theorem enumeration_only_when_empty:
  "(devices s \<noteq> [] \<longrightarrow>
      devices (steps xs s) = devices s \<and> enumerations (steps xs s) = enumerations s)
   \<and> (ds \<noteq> [] \<longrightarrow>
      devices (steps xs (snd (init dbg ud ia (Inr ds) env))) = ds
      \<and> enumerations (steps xs (snd (init dbg ud ia (Inr ds) env))) = 1)"
proof -
  have "devices (steps xs (snd (init dbg ud ia (Inr ds) env))) = ds
        \<and> enumerations (steps xs (snd (init dbg ud ia (Inr ds) env))) = 1" if "ds \<noteq> []"
    using that init_cached [OF that, of dbg ud ia env]
          steps_cached [of "snd (init dbg ud ia (Inr ds) env)" xs] by simp
  then show ?thesis using steps_cached [of s xs] by blast
qed

theorem enumeration_only_when_empty_witness:
  "devices started \<noteq> []
   \<and> devices (steps [Loop_pass (all_fine 5) (Inl OSError) 6, Tick (all_fine 300)] started)
       = [other_interface, headset]
   \<and> enumerations (steps [Loop_pass (all_fine 5) (Inl OSError) 6, Tick (all_fine 300)] started) = 1
   \<and> bootstrap_device (steps [Loop_pass (all_fine 5) (Inl OSError) 6, Tick (all_fine 300)] started) = Some 1"
  using enumeration_only_when_empty
          [of started "[Loop_pass (all_fine 5) (Inl OSError) 6, Tick (all_fine 300)]" "[]"]
  by (simp add: started_eq enumerations_def run_iteration_def run_read_def log_call_def
        bootstrap_def bootstrap_try_def find_device_def wake_def rearm_def stale_def
        all_fine_def headset_def other_interface_def USAGE_PAGE_def)

section \<open>A tick on a ready device\<close>

lemma ready_tick_held:
  assumes "device_ready s" and "\<not> stale s (clock env)" and "bootstrap_device s = Some h"
  shows "bootstrap env s = (None, rearm s)"
  using assms bootstrap_held_handle [of s h env] by (simp add: bootstrap_def)

lemma ready_tick_writes_nothing:
  assumes "device_ready s" and "\<not> stale s (clock env)"
  shows "writes (snd (bootstrap env s)) = writes s
         \<and> device_ready (snd (bootstrap env s))
         \<and> battery_status (snd (bootstrap env s)) = battery_status s
         \<and> app_battery_status (snd (bootstrap env s)) = app_battery_status s
         \<and> last_battery_update_at (snd (bootstrap env s)) = last_battery_update_at s"
proof -
  obtain r s2 where fd: "find_device env s = (r, s2)" by (cases "find_device env s")
  have k: "writes s2 = writes s" "device_ready s2" "battery_status s2 = battery_status s"
          "app_battery_status s2 = app_battery_status s"
          "last_battery_update_at s2 = last_battery_update_at s"
    using find_device_keeps_more [of env s] fd assms(1) by simp_all
  have "snd (bootstrap_try env s) = s2"
    using assms(2) fd k(2) by (simp add: bootstrap_try_def split: option.splits)
  then show ?thesis
    using k by (simp add: bootstrap_split rearm_def log_call_def writes_def)
qed

lemma ready_has_handle:
  assumes "device_ready (steps xs (snd (init dbg ud ia enum env0)))"
  shows "\<exists>h. bootstrap_device (steps xs (snd (init dbg ud ia enum env0))) = Some h"
proof -
  let ?s = "steps xs (snd (init dbg ud ia enum env0))"
  have "consistent ?s" by (rule steps_consistent) (rule init_consistent)
  then have "woken (io_log ?s) (bootstrap_device ?s)"
    using assms by (simp add: consistent_def readiness_inv_def)
  then show ?thesis by (cases "bootstrap_device ?s") simp_all
qed

text \<open>
  C8, as stated, fails at the state inside the handler of a failed read, where the flag
  is still set and the handle is already none: the reading (taken at 10) is not stale
  at 300, and the tick opens the device again, so the handle changes.
\<close>

theorem tick_inside_handler_opens_device:
  "run_read (Inl OSError) 21 served = Continue (ready_clear halfway)
   \<and> device_ready halfway
   \<and> last_battery_update_at halfway = Some 10
   \<and> \<not> stale halfway (clock (all_fine 300))
   \<and> bootstrap_device halfway = None
   \<and> bootstrap_device (snd (bootstrap (all_fine 300) halfway)) = Some 1
   \<and> opens (snd (bootstrap (all_fine 300) halfway)) = Suc (opens halfway)"
proof -
  have "run_read (Inl OSError) 21 served = Continue (ready_clear halfway)"
    using run_read_in_two [of served 0 21] by (simp add: halfway_def served_eq)
  moreover have "device_ready halfway \<and> last_battery_update_at halfway = Some 10
      \<and> \<not> stale halfway (clock (all_fine 300)) \<and> bootstrap_device halfway = None"
    by (simp add: halfway_eq stale_def all_fine_def)
  moreover have "bootstrap_device (snd (bootstrap (all_fine 300) halfway)) = Some 1
      \<and> opens (snd (bootstrap (all_fine 300) halfway)) = Suc (opens halfway)"
    by (simp add: halfway_eq opens_def bootstrap_def bootstrap_try_def find_device_def
          rearm_def stale_def log_call_def all_fine_def headset_def other_interface_def
          USAGE_PAGE_def)
  ultimately show ?thesis by simp
qed

text \<open>
  C8, amended. A tick taken while the readiness flag is set, the cached reading is not
  stale and the attribute holds a handle changes nothing but the timer: it returns
  normally, the only call it adds to the log is the start of the new timer, and the
  handle, the flag, both battery values and the update time are what they were. In an
  execution without overlap a set flag always comes with a handle. Without a handle
  (inside the handler of a failed read) a tick with the flag set and nothing stale
  still makes no wake write and leaves the flag, both battery values and the update
  time as they were; it looks for the device, though, and the handle is then whatever
  it opened.
\<close>

theorem ready_tick_is_noop:
  "(device_ready s \<and> \<not> stale s (clock env) \<and> bootstrap_device s = Some h \<longrightarrow>
      bootstrap env s =
        (None, s\<lparr>io_log := io_log s @ [(Timer_start (update_delay s), None)],
                 interval := Some (update_delay s)\<rparr>))
   \<and> (device_ready s \<and> \<not> stale s (clock env) \<longrightarrow>
        writes (snd (bootstrap env s)) = writes s
        \<and> device_ready (snd (bootstrap env s))
        \<and> battery_status (snd (bootstrap env s)) = battery_status s
        \<and> app_battery_status (snd (bootstrap env s)) = app_battery_status s
        \<and> last_battery_update_at (snd (bootstrap env s)) = last_battery_update_at s)
   \<and> (device_ready (steps xs (snd (init dbg ud ia enum env0))) \<longrightarrow>
        (\<exists>h'. bootstrap_device (steps xs (snd (init dbg ud ia enum env0))) = Some h'))"
proof -
  have "bootstrap env s =
          (None, s\<lparr>io_log := io_log s @ [(Timer_start (update_delay s), None)],
                   interval := Some (update_delay s)\<rparr>)"
    if "device_ready s" "\<not> stale s (clock env)" "bootstrap_device s = Some h"
    using ready_tick_held [OF that] by (simp add: rearm_def log_call_def)
  then show ?thesis
    using ready_tick_writes_nothing [of s env] ready_has_handle [of xs dbg ud ia enum env0]
    by blast
qed

theorem ready_tick_is_noop_witness:
  "device_ready served \<and> \<not> stale served (clock (all_fine 300))
   \<and> last_battery_update_at served = Some 10
   \<and> bootstrap_device served = Some 0
   \<and> bootstrap (all_fine 300) served =
       (None, served\<lparr>io_log := io_log served @ [(Timer_start 300, None)], interval := Some 300\<rparr>)
   \<and> writes (snd (bootstrap (all_fine 300) served)) = writes served
   \<and> device_ready (steps [Loop_pass (all_fine 5) (Inr (frame 2 45)) 10]
                     (snd (init False default_update_delay default_invalidate_after
                             (Inr [other_interface, headset]) (all_fine 0))))
   \<and> bootstrap_device (steps [Loop_pass (all_fine 5) (Inr (frame 2 45)) 10]
                     (snd (init False default_update_delay default_invalidate_after
                             (Inr [other_interface, headset]) (all_fine 0)))) = Some 0"
proof -
  have s: "steps [Loop_pass (all_fine 5) (Inr (frame 2 45)) 10]
             (snd (init False default_update_delay default_invalidate_after
                     (Inr [other_interface, headset]) (all_fine 0))) = served"
    by (simp only: served_def started_def)
  have h: "device_ready served \<and> \<not> stale served (clock (all_fine 300))
           \<and> bootstrap_device served = Some 0 \<and> last_battery_update_at served = Some 10
           \<and> update_delay served = 300"
    by (simp add: served_eq stale_def all_fine_def)
  show ?thesis
    using h s
          ready_tick_is_noop
            [of served "all_fine 300" 0 "[Loop_pass (all_fine 5) (Inr (frame 2 45)) 10]"
                False default_update_delay default_invalidate_after
                "Inr [other_interface, headset]" "all_fine 0"]
    by (simp add: writes_def)
qed

section \<open>Re-arming\<close>










section \<open>Failures and timeouts in the read loop\<close>

lemma run_read_failure:
  "bootstrap_device s = Some h \<Longrightarrow>
   run_read (Inl OSError) now s =
     Continue ((log_call (Read h 20) (Some OSError) s)\<lparr>bootstrap_device := None, device_ready := False\<rparr>)"
  by (simp add: run_read_def)

lemma run_read_timeout:
  "bootstrap_device s = Some h \<Longrightarrow>
   run_read (Inr []) now s = Continue (log_call (Read h 20) None s)"
  by (simp add: run_read_def)

lemma process_data_io_log:
  "process_data s now f = Inr s' \<Longrightarrow> io_log s' = io_log s"
  by (auto simp: process_data_def emit_def Let_def split: sum.splits if_splits)

lemma run_read_reads:
  assumes "bootstrap_device s = Some h"
  shows "reads (loop_state (run_read rr now s)) = Suc (reads s)"
proof (cases rr)
  case (Inl e)
  then show ?thesis
    using assms by (cases "e = OSError") (simp_all add: run_read_def log_call_def reads_def)
next
  case (Inr data)
  have l: "reads (log_call (Read h 20) None s) = Suc (reads s)"
    by (simp add: log_call_def reads_def)
  show ?thesis
  proof (cases "process_data (log_call (Read h 20) None s) now data")
    case (Inl e)
    then show ?thesis using assms Inr l by (simp add: run_read_def Let_def)
  next
    case r: (Inr s2)
    then have "reads s2 = Suc (reads s)"
      using process_data_io_log [OF r] l by (simp add: reads_def)
    then show ?thesis using assms Inr l r by (simp add: run_read_def Let_def)
  qed
qed

lemma blocked_reads_nothing:
  assumes "bootstrap_device s = None"
      and "fst (bootstrap env s) \<noteq> None \<or> \<not> device_ready (snd (bootstrap env s))"
  shows "reads (loop_state (run_iteration env rr now s)) = reads s"
proof -
  obtain r s1 where b: "bootstrap env s = (r, s1)" by (cases "bootstrap env s")
  have "reads s1 = reads s" using bootstrap_reads [of env s] b by simp
  then show ?thesis
    using assms b by (cases r) (simp_all add: run_iteration_def wait_then_read_def)
qed

text \<open>
  C9, as stated, fails. After a read has failed (handle none, flag clear), a tick opens
  the device and its wake write raises \<^verbatim>\<open>OSError\<close>: the handle is kept and the flag
  stays clear. The next loop pass finds a handle, so it does not wait: it reads while
  the flag is clear.
\<close>

theorem pass_reads_without_readiness:
  "run_iteration (all_fine 20) (Inl OSError) 21 served = Continue unplugged
   \<and> bootstrap_device unplugged = None \<and> \<not> device_ready unplugged
   \<and> \<not> device_ready (snd (bootstrap (write_raises OSError 300) unplugged))
   \<and> run_iteration (all_fine 301) (Inr []) 302
        (snd (bootstrap (write_raises OSError 300) unplugged))
      = Continue (log_call (Read 1 20) None
                    (snd (bootstrap (write_raises OSError 300) unplugged)))
   \<and> reads (log_call (Read 1 20) None (snd (bootstrap (write_raises OSError 300) unplugged)))
      = Suc (reads (snd (bootstrap (write_raises OSError 300) unplugged)))"
proof -
  have "run_iteration (all_fine 20) (Inl OSError) 21 served = Continue unplugged"
    by (simp add: unplugged_eq served_eq run_iteration_def run_read_def log_call_def)
  moreover have "bootstrap_device unplugged = None \<and> \<not> device_ready unplugged"
    by (simp add: unplugged_eq)
  moreover have b: "bootstrap_device (snd (bootstrap (write_raises OSError 300) unplugged)) = Some 1
      \<and> \<not> device_ready (snd (bootstrap (write_raises OSError 300) unplugged))"
    by (simp add: unplugged_eq bootstrap_def bootstrap_try_def find_device_def wake_def
          rearm_def stale_def log_call_def write_raises_def all_fine_def headset_def
          other_interface_def USAGE_PAGE_def)
  moreover have "run_iteration (all_fine 301) (Inr []) 302
        (snd (bootstrap (write_raises OSError 300) unplugged))
      = Continue (log_call (Read 1 20) None
                    (snd (bootstrap (write_raises OSError 300) unplugged)))"
    using b run_read_timeout [of "snd (bootstrap (write_raises OSError 300) unplugged)" 1 302]
    by (simp add: run_iteration_def)
  moreover have "reads (log_call (Read 1 20) None s) = Suc (reads s)" for s
    by (simp add: log_call_def reads_def)
  ultimately show ?thesis by simp
qed

text \<open>
  C9, amended. A read that raises \<^verbatim>\<open>OSError\<close> makes the loop go round again, with
  the handle none and the readiness flag clear; nothing leaves \<^verbatim>\<open>run\<close>. A pass
  that finds no handle calls \<^verbatim>\<open>bootstrap\<close> and then waits on the flag: it is
  blocked while the flag is clear, and it reads only if \<^verbatim>\<open>bootstrap\<close> returned and
  the flag is set. A pass that finds a handle does not wait: it reads at once,
  whatever the flag. A read that returns no data makes the loop go round again with
  nothing changed but the logged read.
\<close>

theorem read_failure_clears_and_waits:
  "(bootstrap_device s = Some h \<longrightarrow>
      run_iteration env (Inl OSError) now s =
        Continue ((log_call (Read h 20) (Some OSError) s)
                    \<lparr>bootstrap_device := None, device_ready := False\<rparr>))
   \<and> (bootstrap_device s = None \<and> fst (bootstrap env s) = None
        \<and> \<not> device_ready (snd (bootstrap env s))
      \<longrightarrow> run_iteration env rr now s = Blocked (snd (bootstrap env s)))
   \<and> (bootstrap_device s = None
        \<and> reads (loop_state (run_iteration env rr now s)) \<noteq> reads s
      \<longrightarrow> fst (bootstrap env s) = None \<and> device_ready (snd (bootstrap env s)))
   \<and> (\<not> device_ready s \<longrightarrow> wait_then_read rr now s = Blocked s)
   \<and> (bootstrap_device s = Some h \<longrightarrow>
        reads (loop_state (run_iteration env rr now s)) = Suc (reads s))
   \<and> (bootstrap_device s = Some h \<longrightarrow>
      run_iteration env (Inr []) now s = Continue (log_call (Read h 20) None s))
   \<and> (bootstrap_device s = None \<and> fst (bootstrap env s) = None
        \<and> device_ready (snd (bootstrap env s))
      \<longrightarrow> run_iteration env rr now s = run_read rr now (snd (bootstrap env s)))
   \<and> (bootstrap_device s = Some h \<longrightarrow>
      run_read (Inl OSError) now s =
        Continue ((log_call (Read h 20) (Some OSError) s)
                    \<lparr>bootstrap_device := None, device_ready := False\<rparr>)
      \<and> run_read (Inr []) now s = Continue (log_call (Read h 20) None s))"
proof -
  have a: "bootstrap_device s = None \<and> fst (bootstrap env s) = None
           \<and> \<not> device_ready (snd (bootstrap env s))
           \<longrightarrow> run_iteration env rr now s = Blocked (snd (bootstrap env s))"
    by (cases "bootstrap env s") (simp add: run_iteration_def wait_then_read_def)
  have b: "bootstrap_device s = None
           \<and> reads (loop_state (run_iteration env rr now s)) \<noteq> reads s
           \<longrightarrow> fst (bootstrap env s) = None \<and> device_ready (snd (bootstrap env s))"
    using blocked_reads_nothing [of s env rr now] by blast
  have c: "bootstrap_device s = Some h \<longrightarrow>
           reads (loop_state (run_iteration env rr now s)) = Suc (reads s)"
    using run_read_reads [of s h rr now] by (simp add: run_iteration_def)
  have d: "bootstrap_device s = Some h \<longrightarrow>
           run_iteration env (Inl OSError) now s =
             Continue ((log_call (Read h 20) (Some OSError) s)
                         \<lparr>bootstrap_device := None, device_ready := False\<rparr>)"
    using run_read_failure [of s h now] by (simp add: run_iteration_def)
  have e: "bootstrap_device s = Some h \<longrightarrow>
           run_iteration env (Inr []) now s = Continue (log_call (Read h 20) None s)"
    using run_read_timeout [of s h now] by (simp add: run_iteration_def)
  have f: "\<not> device_ready s \<longrightarrow> wait_then_read rr now s = Blocked s"
    by (simp add: wait_then_read_def)
  have g: "bootstrap_device s = None \<and> fst (bootstrap env s) = None
           \<and> device_ready (snd (bootstrap env s))
           \<longrightarrow> run_iteration env rr now s = run_read rr now (snd (bootstrap env s))"
    by (cases "bootstrap env s") (simp add: run_iteration_def wait_then_read_def)
  have h: "bootstrap_device s = Some h \<longrightarrow>
           run_read (Inl OSError) now s =
             Continue ((log_call (Read h 20) (Some OSError) s)
                         \<lparr>bootstrap_device := None, device_ready := False\<rparr>)
           \<and> run_read (Inr []) now s = Continue (log_call (Read h 20) None s)"
    using run_read_failure [of s h now] run_read_timeout [of s h now] by blast
  show ?thesis using a b c d e f g h by blast
qed

theorem read_failure_clears_and_waits_witness:
  "bootstrap_device served = Some 0
   \<and> run_iteration (all_fine 20) (Inl OSError) 21 served = Continue unplugged
   \<and> bootstrap_device unplugged = None
   \<and> fst (bootstrap (write_raises OSError 300) unplugged) = None
   \<and> \<not> device_ready (snd (bootstrap (write_raises OSError 300) unplugged))
   \<and> run_iteration (write_raises OSError 300) (Inr (frame 2 45)) 301 unplugged
      = Blocked (snd (bootstrap (write_raises OSError 300) unplugged))
   \<and> \<not> device_ready unplugged
   \<and> wait_then_read (Inr (frame 2 45)) 301 unplugged = Blocked unplugged
   \<and> reads (loop_state (run_iteration (all_fine 20) (Inr (frame 2 45)) 21 served))
      = Suc (reads served)
   \<and> run_iteration (all_fine 20) (Inr []) 21 served
      = Continue (served\<lparr>io_log := io_log served @ [(Read 0 20, None)]\<rparr>)"
proof -
  have h: "bootstrap_device served = Some 0" by (simp add: served_eq)
  have u: "bootstrap_device unplugged = None \<and> \<not> device_ready unplugged"
    by (simp add: unplugged_eq)
  have e: "(log_call (Read 0 20) (Some OSError) served)
             \<lparr>bootstrap_device := None, device_ready := False\<rparr> = unplugged"
    by (simp add: unplugged_eq served_eq log_call_def)
  have b: "fst (bootstrap (write_raises OSError 300) unplugged) = None
           \<and> \<not> device_ready (snd (bootstrap (write_raises OSError 300) unplugged))"
    by (simp add: unplugged_eq bootstrap_def bootstrap_try_def find_device_def wake_def
          rearm_def stale_def log_call_def write_raises_def all_fine_def headset_def
          other_interface_def USAGE_PAGE_def)
  note served_pass =
    read_failure_clears_and_waits [of served 0 "all_fine 20" 21 "Inr (frame 2 45)"]
  note unplugged_pass =
    read_failure_clears_and_waits
      [of unplugged 0 "write_raises OSError 300" 301 "Inr (frame 2 45)"]
  have f: "run_iteration (all_fine 20) (Inl OSError) 21 served = Continue unplugged"
    using h e served_pass by metis
  have r: "reads (loop_state (run_iteration (all_fine 20) (Inr (frame 2 45)) 21 served))
             = Suc (reads served)"
    using h served_pass by blast
  have t: "run_iteration (all_fine 20) (Inr []) 21 served
             = Continue (log_call (Read 0 20) None served)"
    using h served_pass by blast
  have k: "run_iteration (write_raises OSError 300) (Inr (frame 2 45)) 301 unplugged
             = Blocked (snd (bootstrap (write_raises OSError 300) unplugged))"
    using u b unplugged_pass by blast
  have w: "wait_then_read (Inr (frame 2 45)) 301 unplugged = Blocked unplugged"
    using u unplugged_pass by blast
  have l: "log_call (Read 0 20) None served
             = served\<lparr>io_log := io_log served @ [(Read 0 20, None)]\<rparr>"
    by (simp add: log_call_def)
  show ?thesis
    using h u b f r t k w unfolding l by blast
qed

section \<open>Two defects\<close>

text \<open>
  C3 at a concrete execution: a reading of 45 is served; a tick 1990 seconds after it
  invalidates, so the endpoint answers unknown, and the same tick finds and wakes the
  device again. A new frame with the same 45 refreshes the update time but the endpoint
  still answers unknown; only a frame with another percentage (44) restores a value.
\<close>

theorem same_percentage_after_invalidation_stays_unknown:
  "battery_status_route (steps [Loop_pass (all_fine 5) (Inr (frame 2 45)) 10] started) = Percentage 45
   \<and> battery_status_route
        (steps [Loop_pass (all_fine 5) (Inr (frame 2 45)) 10, Tick (all_fine 2000)] started) = Unknown
   \<and> device_ready
        (steps [Loop_pass (all_fine 5) (Inr (frame 2 45)) 10, Tick (all_fine 2000)] started)
   \<and> battery_status_route
        (steps [Loop_pass (all_fine 5) (Inr (frame 2 45)) 10, Tick (all_fine 2000),
                Loop_pass (all_fine 2001) (Inr (frame 2 45)) 2001] started) = Unknown
   \<and> last_battery_update_at
        (steps [Loop_pass (all_fine 5) (Inr (frame 2 45)) 10, Tick (all_fine 2000),
                Loop_pass (all_fine 2001) (Inr (frame 2 45)) 2001] started) = Some 2001
   \<and> battery_status_route
        (steps [Loop_pass (all_fine 5) (Inr (frame 2 45)) 10, Tick (all_fine 2000),
                Loop_pass (all_fine 2001) (Inr (frame 2 44)) 2001] started) = Percentage 44"
  by (simp add: started_eq battery_status_route_def run_iteration_def run_read_def
        process_data_def py_index_def frame_def emit_def log_call_def
        bootstrap_def bootstrap_try_def find_device_def wake_def rearm_def stale_def
        invalidate_def all_fine_def headset_def other_interface_def USAGE_PAGE_def)

text \<open>
  C4 at a concrete execution: in the first tick the headset is opened and the wake write
  raises \<^verbatim>\<open>OSError\<close>; afterwards the attribute still holds the handle. The next tick
  opens nothing and enumerates nothing: it writes to the same handle.
\<close>

theorem failed_wake_keeps_handle:
  "bootstrap_device (snd (bootstrap (write_raises OSError 0) searching)) = Some 0
   \<and> \<not> device_ready (snd (bootstrap (write_raises OSError 0) searching))
   \<and> opens (snd (bootstrap (write_raises OSError 0) searching)) = 1
   \<and> opens (snd (bootstrap (all_fine 300) (snd (bootstrap (write_raises OSError 0) searching)))) = 1
   \<and> enumerations (snd (bootstrap (all_fine 300) (snd (bootstrap (write_raises OSError 0) searching)))) = 0
   \<and> bootstrap_device (snd (bootstrap (all_fine 300) (snd (bootstrap (write_raises OSError 0) searching)))) = Some 0
   \<and> io_log (snd (bootstrap (all_fine 300) (snd (bootstrap (write_raises OSError 0) searching))))
       = [(Open_path 0 ''hid0'', None), (Write 0 wake_buffer, Some OSError), (Timer_start 300, None),
          (Write 0 wake_buffer, None), (Timer_start 300, None)]"
  by (simp add: searching_def new_object_def opens_def enumerations_def
        bootstrap_def bootstrap_try_def find_device_def wake_def rearm_def stale_def
        log_call_def write_raises_def all_fine_def headset_def other_interface_def
        USAGE_PAGE_def default_update_delay_def default_invalidate_after_def)

end
